theory Spec2Isabelle
  imports Main "HOL-Library.Word"
begin

section \<open>Data model (src/Game/GameState.h)\<close>

text \<open>
  \<open>std::size_t\<close> is an unsigned 64-bit integer: addition wraps modulo \<open>2 ^ 64\<close>.
  The fields of the source end in an underscore (\<open>num_\<close>, \<open>players_\<close>, \<open>rng_\<close>, ...);
  the trailing underscore is dropped here because a record field cannot carry one.
\<close>

type_synonym size_t = "64 word"

record Cell =
  num :: size_t

record Player =
  scores :: "size_t list"
  current_round_scores :: "size_t list"

definition HEIGHT :: nat where
  "HEIGHT = 10"

definition WIDTH :: nat where
  "WIDTH = 17"

text \<open>\<open>grid_t\<close> is \<open>std::array<std::array<Cell, WIDTH>, HEIGHT>\<close>: a list of rows.\<close>

type_synonym grid_t = "Cell list list"

text \<open>
  The state of a \<open>GameState\<close> object. The type \<open>'g\<close> is the state of the engine
  \<open>std::mt19937 rng_\<close>, which belongs to the C++ standard library.
\<close>

record 'g GameState =
  players :: "string \<rightharpoonup> Player"
  total_rounds :: size_t
  current_round :: size_t
  rng :: 'g

text \<open>
  The two library operations the class uses are parameters of the model:
  \<^item> \<open>seed\<close> is \<open>std::mt19937::seed\<close>: the engine state for a seed value;
  \<^item> \<open>uid a b\<close> is a call \<open>dist(rng_)\<close> of a \<open>std::uniform_int_distribution<std::size_t>\<close>
  constructed with \<open>(a, b)\<close>: from the engine state to the number drawn and the advanced
  engine state.
\<close>

type_synonym 'g seed_t = "32 word \<Rightarrow> 'g"
type_synonym 'g dist_t = "'g \<Rightarrow> size_t \<times> 'g"
type_synonym 'g uniform_int_distribution = "size_t \<Rightarrow> size_t \<Rightarrow> 'g dist_t"

text \<open>
  Modelled from the spec: the library's contract for the distribution, which the spec
  words as "drawn ... from the integer range [1, 5]" and the C++ standard as
  \<open>a \<le> i \<le> b\<close> for every number \<open>i\<close> drawn from \<open>uniform_int_distribution(a, b)\<close>.
\<close>

definition uniform_int_contract :: "'g uniform_int_distribution \<Rightarrow> bool" where
  "uniform_int_contract uid =
     (\<forall>a b g. a \<le> b \<longrightarrow> a \<le> fst (uid a b g) \<and> fst (uid a b g) \<le> b)"

text \<open>Calling \<open>back()\<close> on an empty \<open>std::vector\<close> is undefined behaviour.\<close>

datatype error = BackOfEmptyVector

section \<open>Operations (src/Game/GameState.cpp)\<close>

text \<open>The constructor: \<open>GameState::GameState() { rng_.seed(0); }\<close>, counters at 0.\<close>

definition GameState_ctor :: "'g seed_t \<Rightarrow> 'g GameState" where
  "GameState_ctor seed =
     \<lparr>players = Map.empty, total_rounds = 0, current_round = 0, rng = seed 0\<rparr>"

text \<open>
  The inner loop of \<open>InitRound\<close>,
  \<open>for (j = 0; j < WIDTH; ++j) grid[i][j].num_ = dist(rng_);\<close>, from column \<open>j\<close> on.
\<close>

function fill_row :: "'g dist_t \<Rightarrow> nat \<Rightarrow> nat \<Rightarrow> grid_t \<times> 'g \<Rightarrow> grid_t \<times> 'g" where
  "fill_row dist i j (grid, g) =
     (if j < WIDTH then
        fill_row dist i (Suc j)
          (grid[i := (grid ! i)[j := (grid ! i ! j)\<lparr>num := fst (dist g)\<rparr>]], snd (dist g))
      else (grid, g))"
  by pat_completeness auto
termination
  by (relation "measure (\<lambda>(dist, i, j, s). WIDTH - j)") auto

text \<open>The outer loop, \<open>for (i = 0; i < HEIGHT; ++i)\<close>, from row \<open>i\<close> on.\<close>

function fill_grid :: "'g dist_t \<Rightarrow> nat \<Rightarrow> grid_t \<times> 'g \<Rightarrow> grid_t \<times> 'g" where
  "fill_grid dist i (grid, g) =
     (if i < HEIGHT then fill_grid dist (Suc i) (fill_row dist i 0 (grid, g))
      else (grid, g))"
  by pat_completeness auto
termination
  by (relation "measure (\<lambda>(dist, i, s). HEIGHT - i)") auto

declare fill_row.simps [simp del]
declare fill_grid.simps [simp del]

text \<open>\<open>grid_t grid{}\<close>: every cell value-initialised, \<open>num_ = 0\<close>.\<close>

definition empty_grid :: grid_t where
  "empty_grid = replicate HEIGHT (replicate WIDTH \<lparr>num = 0\<rparr>)"

text \<open>
  The body of the range-for over \<open>players_\<close>:
  \<open>player.scores.push_back(0); player.current_round_scores_.clear();\<close>
\<close>

definition start_round :: "Player \<Rightarrow> Player" where
  "start_round player =
     player\<lparr>scores := scores player @ [0], current_round_scores := []\<rparr>"

text \<open>
  \<open>InitRound\<close> returns the grid; the object after the call is the second component.
  The loop over the map visits every entry once and touches that entry only, so the
  order of the visit does not matter.
\<close>

definition InitRound :: "'g uniform_int_distribution \<Rightarrow> 'g GameState \<Rightarrow> grid_t \<times> 'g GameState" where
  "InitRound uid s =
     (let dist = uid 1 5;
          filled = fill_grid dist 0 (empty_grid, rng s)
      in (fst filled,
          s\<lparr>rng := snd filled,
            current_round := current_round s + 1,
            players := (\<lambda>name. map_option start_round (players s name))\<rparr>))"

text \<open>
  \<open>players_[player_name]\<close>: \<open>operator[]\<close> of \<open>std::unordered_map\<close> inserts a
  value-initialised \<open>Player\<close> (two empty vectors) when the key is absent, and returns the
  entry.
\<close>

definition new_Player :: Player where
  "new_Player = \<lparr>scores = [], current_round_scores = []\<rparr>"

definition subscript :: "(string \<rightharpoonup> Player) \<Rightarrow> string \<Rightarrow> (string \<rightharpoonup> Player) \<times> Player" where
  "subscript m name =
     (case m name of
        None \<Rightarrow> (m(name \<mapsto> new_Player), new_Player)
      | Some p \<Rightarrow> (m, p))"

text \<open>\<open>v.back() += delta\<close> on a vector: undefined on the empty vector.\<close>

definition back_add :: "size_t list \<Rightarrow> size_t \<Rightarrow> error + size_t list" where
  "back_add v delta =
     (if v = [] then Inl BackOfEmptyVector
      else Inr (v[length v - 1 := v ! (length v - 1) + delta]))"

text \<open>
  \<open>UpdatePlayerScore\<close>: two statements, each of which looks the player up with
  \<open>operator[]\<close>.
\<close>

definition UpdatePlayerScore :: "string \<Rightarrow> size_t \<Rightarrow> 'g GameState \<Rightarrow> error + 'g GameState" where
  "UpdatePlayerScore player_name delta s =
     (let (m1, p1) = subscript (players s) player_name in
      case back_add (scores p1) delta of
        Inl e \<Rightarrow> Inl e
      | Inr v \<Rightarrow>
          (let m2 = m1(player_name \<mapsto> p1\<lparr>scores := v\<rparr>);
               (m3, p3) = subscript m2 player_name
           in Inr (s\<lparr>players := m3(player_name \<mapsto>
                 p3\<lparr>current_round_scores := current_round_scores p3 @ [delta]\<rparr>)\<rparr>)))"

text \<open>\<open>GetOrAddPlayer\<close> returns the entry; the object after the call is the second component.\<close>

definition GetOrAddPlayer :: "string \<Rightarrow> 'g GameState \<Rightarrow> Player \<times> 'g GameState" where
  "GetOrAddPlayer player_name s =
     (let (m, p) = subscript (players s) player_name in (p, s\<lparr>players := m\<rparr>))"

section \<open>Call sequences\<close>

text \<open>
  A client drives a \<open>GameState\<close> with a sequence of calls. \<open>run\<close> performs them in
  order and collects the grids the \<open>InitRound\<close> calls return; it stops at the first
  call whose behaviour is undefined.
\<close>

datatype call =
    CallInitRound
  | CallGetOrAddPlayer string
  | CallUpdatePlayerScore string size_t

fun run :: "'g uniform_int_distribution \<Rightarrow> call list \<Rightarrow> 'g GameState \<Rightarrow> error + (grid_t list \<times> 'g GameState)" where
  "run uid [] s = Inr ([], s)"
| "run uid (CallInitRound # cs) s =
     (case run uid cs (snd (InitRound uid s)) of
        Inl e \<Rightarrow> Inl e
      | Inr (grids, s') \<Rightarrow> Inr (fst (InitRound uid s) # grids, s'))"
| "run uid (CallGetOrAddPlayer name # cs) s = run uid cs (snd (GetOrAddPlayer name s))"
| "run uid (CallUpdatePlayerScore name delta # cs) s =
     (case UpdatePlayerScore name delta s of
        Inl e \<Rightarrow> Inl e
      | Inr s' \<Rightarrow> run uid cs s')"

section \<open>Vocabulary of the properties\<close>

text \<open>A cell holds one of the five fruit types.\<close>

definition cell_ok :: "Cell \<Rightarrow> bool" where
  "cell_ok c = (1 \<le> num c \<and> num c \<le> 5)"

text \<open>A grid has \<open>HEIGHT\<close> rows of \<open>WIDTH\<close> cells, each holding a fruit type.\<close>

definition grid_ok :: "grid_t \<Rightarrow> bool" where
  "grid_ok grid =
     (length grid = HEIGHT \<and> list_all (\<lambda>row. length row = WIDTH \<and> list_all cell_ok row) grid)"

text \<open>
  The grids that \<open>n\<close> successive rounds draw from an engine in state \<open>g\<close>, and the
  engine state they leave: a function of the engine alone.
\<close>

fun grids_from :: "'g uniform_int_distribution \<Rightarrow> nat \<Rightarrow> 'g \<Rightarrow> grid_t list \<times> 'g" where
  "grids_from uid 0 g = ([], g)"
| "grids_from uid (Suc n) g =
     (let filled = fill_grid (uid 1 5) 0 (empty_grid, g);
          rest = grids_from uid n (snd filled)
      in (fst filled # fst rest, snd rest))"

text \<open>
  The spec's count for the length of a player's \<open>scores\<close>: "the number of rounds
  elapsed since that player was first referenced". \<open>rounds_since name cs\<close> is \<open>None\<close>
  when no call of \<open>cs\<close> names the player, and otherwise the number of \<open>InitRound\<close> calls
  after the first call that does.
\<close>

fun references :: "call \<Rightarrow> string \<Rightarrow> bool" where
  "references CallInitRound name = False"
| "references (CallGetOrAddPlayer n) name = (n = name)"
| "references (CallUpdatePlayerScore n delta) name = (n = name)"

fun rounds_since :: "string \<Rightarrow> call list \<Rightarrow> nat option" where
  "rounds_since name [] = None"
| "rounds_since name (c # cs) =
     (if references c name then Some (count_list cs CallInitRound)
      else rounds_since name cs)"

subsection \<open>A small instance of the library interface\<close>

text \<open>
  A linear congruential engine on 32-bit words and a distribution that reduces its upper
  bits into \<open>[a, b]\<close>: an instance of the two library parameters that meets the
  contract, on which the operations can be run.
\<close>

definition lcg_seed :: "32 word seed_t" where
  "lcg_seed v = v"

definition lcg_uid :: "32 word uniform_int_distribution" where
  "lcg_uid a b g =
     (of_nat (unat a + unat (drop_bit 16 g) mod (unat b - unat a + 1)),
      g * 1664525 + 1013904223)"

section \<open>The loops of InitRound\<close>

lemma fill_row_spec:
  "\<forall>r. P (fst (dist r)) \<Longrightarrow> i < length (fst st) \<Longrightarrow> length (fst st ! i) = WIDTH \<Longrightarrow>
    length (fst (fill_row dist i j st)) = length (fst st) \<and>
    (\<forall>k. k \<noteq> i \<longrightarrow> fst (fill_row dist i j st) ! k = fst st ! k) \<and>
    length (fst (fill_row dist i j st) ! i) = WIDTH \<and>
    (\<forall>c<WIDTH. if c < j then fst (fill_row dist i j st) ! i ! c = fst st ! i ! c
                else P (num (fst (fill_row dist i j st) ! i ! c)))"
proof (induction dist i j st rule: fill_row.induct)
  case (1 dist i j grid g)
  show ?case
  proof (cases "j < WIDTH")
    case False
    then show ?thesis using "1.prems" by (simp add: fill_row.simps)
  next
    case True
    let ?grid1 = "grid[i := (grid ! i)[j := (grid ! i ! j)\<lparr>num := fst (dist g)\<rparr>]]"
    let ?st1 = "(?grid1, snd (dist g))"
    have unf: "fill_row dist i j (grid, g) = fill_row dist i (Suc j) ?st1"
      using True by (subst fill_row.simps) simp
    have len1: "i < length (fst ?st1)" "length (fst ?st1 ! i) = WIDTH"
      using "1.prems" by simp_all
    note IH = "1.IH"[OF True "1.prems"(1) len1]
    have cells: "if c < j then fst (fill_row dist i (Suc j) ?st1) ! i ! c = grid ! i ! c
                else P (num (fst (fill_row dist i (Suc j) ?st1) ! i ! c))" if c: "c < WIDTH" for c
    proof -
      from IH have A: "\<forall>c<WIDTH. if c < Suc j
          then fst (fill_row dist i (Suc j) ?st1) ! i ! c = fst ?st1 ! i ! c
          else P (num (fst (fill_row dist i (Suc j) ?st1) ! i ! c))"
        by blast
      have B: "?grid1 ! i ! c = (if c = j then (grid ! i ! j)\<lparr>num := fst (dist g)\<rparr> else grid ! i ! c)"
        using "1.prems" c by (simp add: nth_list_update)
      show ?thesis
      proof (cases "c < Suc j")
        case True
        with A c have "fst (fill_row dist i (Suc j) ?st1) ! i ! c = ?grid1 ! i ! c" by simp
        with B True "1.prems"(1) show ?thesis by (cases "c = j") auto
      next
        case False
        with A c show ?thesis by auto
      qed
    qed
    from IH have "length (fst (fill_row dist i (Suc j) ?st1)) = length grid"
      and "\<forall>k. k \<noteq> i \<longrightarrow> fst (fill_row dist i (Suc j) ?st1) ! k = grid ! k"
      and "length (fst (fill_row dist i (Suc j) ?st1) ! i) = WIDTH"
      by simp_all
    with cells show ?thesis
      unfolding unf by simp
  qed
qed

lemma fill_grid_spec:
  "\<forall>r. P (fst (dist r)) \<Longrightarrow> length (fst st) = HEIGHT \<Longrightarrow> \<forall>row\<in>set (fst st). length row = WIDTH \<Longrightarrow>
    length (fst (fill_grid dist i st)) = HEIGHT \<and>
    (\<forall>row\<in>set (fst (fill_grid dist i st)). length row = WIDTH) \<and>
    (\<forall>r<HEIGHT. if r < i then fst (fill_grid dist i st) ! r = fst st ! r
                else (\<forall>c<WIDTH. P (num (fst (fill_grid dist i st) ! r ! c))))"
proof (induction dist i st rule: fill_grid.induct)
  case (1 dist i grid g)
  show ?case
  proof (cases "i < HEIGHT")
    case False
    then show ?thesis using "1.prems" by (simp add: fill_grid.simps)
  next
    case True
    let ?st1 = "fill_row dist i 0 (grid, g)"
    have unf: "fill_grid dist i (grid, g) = fill_grid dist (Suc i) ?st1"
      using True by (subst fill_grid.simps) simp
    have i: "i < length (fst (grid, g))" "length (fst (grid, g) ! i) = WIDTH"
      using True "1.prems" by simp_all
    note row = fill_row_spec[OF "1.prems"(1) i, of 0]
    have len1: "length (fst ?st1) = HEIGHT" using row "1.prems" by simp
    have rows1: "\<forall>row\<in>set (fst ?st1). length row = WIDTH"
    proof
      fix rw assume "rw \<in> set (fst ?st1)"
      then obtain k where k: "k < length (fst ?st1)" "rw = fst ?st1 ! k"
        by (auto simp: in_set_conv_nth)
      show "length rw = WIDTH"
      proof (cases "k = i")
        case True then show ?thesis using row k by simp
      next
        case False
        then have "rw = grid ! k" using row k by simp
        then show ?thesis using "1.prems" k len1 by simp
      qed
    qed
    note IH = "1.IH"[OF True "1.prems"(1) len1 rows1]
    have cells: "if r < i then fst (fill_grid dist (Suc i) ?st1) ! r = grid ! r
                 else (\<forall>c<WIDTH. P (num (fst (fill_grid dist (Suc i) ?st1) ! r ! c)))"
      if r: "r < HEIGHT" for r
    proof -
      from IH have A: "\<forall>r<HEIGHT. if r < Suc i
          then fst (fill_grid dist (Suc i) ?st1) ! r = fst ?st1 ! r
          else (\<forall>c<WIDTH. P (num (fst (fill_grid dist (Suc i) ?st1) ! r ! c)))"
        by blast
      from row have B: "\<forall>k. k \<noteq> i \<longrightarrow> fst ?st1 ! k = grid ! k"
        and C: "\<forall>c<WIDTH. P (num (fst ?st1 ! i ! c))"
        by simp_all
      show ?thesis
      proof (cases "r < Suc i")
        case True
        with A r have "fst (fill_grid dist (Suc i) ?st1) ! r = fst ?st1 ! r" by simp
        with B C True show ?thesis by (cases "r = i") auto
      next
        case False
        with A r show ?thesis by auto
      qed
    qed
    from IH have "length (fst (fill_grid dist (Suc i) ?st1)) = HEIGHT"
      and "\<forall>row\<in>set (fst (fill_grid dist (Suc i) ?st1)). length row = WIDTH"
      by blast+
    with cells show ?thesis unfolding unf by simp
  qed
qed

section \<open>The library instance meets the contract\<close>

lemma lcg_uid_contract: "uniform_int_contract lcg_uid"
  unfolding uniform_int_contract_def
proof (intro allI impI)
  fix a b :: size_t and g :: "32 word"
  assume "a \<le> b"
  then have ab: "unat a \<le> unat b" by (simp add: word_le_nat_alt)
  let ?r = "unat (drop_bit 16 g) mod (unat b - unat a + 1)"
  have "?r < unat b - unat a + 1" by simp
  with ab have le: "unat a + ?r \<le> unat b" by linarith
  have u: "unat (of_nat (unat a + ?r) :: size_t) = unat a + ?r"
    using le by (rule le_unat_uoi)
  show "a \<le> fst (lcg_uid a b g) \<and> fst (lcg_uid a b g) \<le> b"
    using u le by (simp add: lcg_uid_def word_le_nat_alt)
qed


section \<open>Grids\<close>

lemma InitRound_grid_ok:
  assumes "uniform_int_contract uid"
  shows "grid_ok (fst (InitRound uid s))"
proof -
  let ?P = "\<lambda>v::size_t. 1 \<le> v \<and> v \<le> 5"
  let ?st = "(empty_grid, rng s)"
  have draw: "\<forall>r. ?P (fst (uid 1 5 r))"
    using assms by (simp add: uniform_int_contract_def)
  have len0: "length (fst ?st) = HEIGHT"
    and rows0: "\<forall>row\<in>set (fst ?st). length row = WIDTH"
    by (simp_all add: empty_grid_def)
  note filled = fill_grid_spec [where P = ?P, OF draw len0 rows0, of 0]
  let ?grid = "fst (fill_grid (uid 1 5) 0 ?st)"
  from filled have len: "length ?grid = HEIGHT"
    and rows: "\<forall>row\<in>set ?grid. length row = WIDTH"
    and cells: "\<forall>r<HEIGHT. \<forall>c<WIDTH. ?P (num (?grid ! r ! c))"
    by simp_all
  have "list_all (\<lambda>row. length row = WIDTH \<and> list_all cell_ok row) ?grid"
    using len rows cells by (simp add: list_all_length cell_ok_def)
  with len show ?thesis
    by (simp add: grid_ok_def InitRound_def Let_def)
qed

lemma run_grids_ok:
  "uniform_int_contract uid \<Longrightarrow> run uid cs s = Inr (grids, s') \<Longrightarrow> list_all grid_ok grids"
proof (induction cs arbitrary: s grids s')
  case Nil
  then show ?case by simp
next
  case (Cons c cs)
  show ?case
  proof (cases c)
    case CallInitRound
    with Cons.prems obtain gs where
      "run uid cs (snd (InitRound uid s)) = Inr (gs, s')" "grids = fst (InitRound uid s) # gs"
      by (auto split: sum.splits)
    with Cons.IH Cons.prems(1) show ?thesis
      by (simp add: InitRound_grid_ok)
  next
    case (CallGetOrAddPlayer name)
    with Cons show ?thesis by simp
  next
    case (CallUpdatePlayerScore name delta)
    with Cons show ?thesis by (auto split: sum.splits)
  qed
qed

lemma run_InitRounds_total:
  "\<exists>grids s'. run uid (replicate n CallInitRound) s = Inr (grids, s') \<and> length grids = n"
proof (induction n arbitrary: s)
  case 0
  show ?case by simp
next
  case (Suc n)
  from Suc [of "snd (InitRound uid s)"] show ?case by auto
qed

text \<open>
  Claim C1. Under the library's contract for the distribution, the grid every
  \<open>InitRound\<close> call returns has exactly \<open>HEIGHT\<close> (10) rows of \<open>WIDTH\<close> (17) cells and
  every cell value lies in \<open>[1, 5]\<close>: for one call from any state, for the grids of any
  number \<open>n\<close> of successive calls (which all return), and for the grids of every call
  sequence.
\<close>

theorem grid_shape_and_range:
  assumes "uniform_int_contract uid"
  shows "length (fst (InitRound uid s)) = 10 \<and>
         (\<forall>row\<in>set (fst (InitRound uid s)).
            length row = 17 \<and> (\<forall>c\<in>set row. 1 \<le> num c \<and> num c \<le> 5)) \<and>
         (\<exists>grids s'. run uid (replicate n CallInitRound) s = Inr (grids, s') \<and>
            length grids = n \<and> list_all grid_ok grids) \<and>
         (\<forall>cs grids s'. run uid cs s = Inr (grids, s') \<longrightarrow> list_all grid_ok grids)"
proof (intro conjI allI impI)
  have ok: "grid_ok (fst (InitRound uid s))"
    using assms by (rule InitRound_grid_ok)
  then show "length (fst (InitRound uid s)) = 10"
    by (simp add: grid_ok_def HEIGHT_def)
  from ok show "\<forall>row\<in>set (fst (InitRound uid s)).
      length row = 17 \<and> (\<forall>c\<in>set row. 1 \<le> num c \<and> num c \<le> 5)"
    by (simp add: grid_ok_def list_all_iff cell_ok_def WIDTH_def)
next
  from run_InitRounds_total [of uid n s] obtain grids s'
    where r: "run uid (replicate n CallInitRound) s = Inr (grids, s')" "length grids = n"
    by blast
  with run_grids_ok [OF assms r(1)]
  show "\<exists>grids s'. run uid (replicate n CallInitRound) s = Inr (grids, s') \<and>
            length grids = n \<and> list_all grid_ok grids"
    by blast
next
  fix cs grids s'
  assume "run uid cs s = Inr (grids, s')"
  with assms show "list_all grid_ok grids" by (rule run_grids_ok)
qed

theorem grid_shape_and_range_witness:
  "uniform_int_contract lcg_uid \<and>
   grid_ok (fst (InitRound lcg_uid (GameState_ctor lcg_seed))) \<and>
   (\<exists>grids s'. run lcg_uid (replicate 3 CallInitRound) (GameState_ctor lcg_seed) = Inr (grids, s') \<and>
      length grids = 3 \<and> list_all grid_ok grids)"
  using grid_shape_and_range [OF lcg_uid_contract, of "GameState_ctor lcg_seed" 3] lcg_uid_contract
  by (simp add: grid_ok_def list_all_iff cell_ok_def WIDTH_def HEIGHT_def)

section \<open>The operations on players\<close>

lemma back_add_Inr:
  "v \<noteq> [] \<Longrightarrow> back_add v delta = Inr (butlast v @ [last v + delta])"
proof -
  assume v: "v \<noteq> []"
  then obtain xs x where "v = xs @ [x]" by (metis append_butlast_last_id)
  then show ?thesis by (simp add: back_add_def)
qed

lemma back_add_Nil: "back_add [] delta = Inl BackOfEmptyVector"
  by (simp add: back_add_def)

lemma InitRound_players:
  "players (snd (InitRound uid s)) name = map_option start_round (players s name)"
  by (simp add: InitRound_def Let_def)

lemma InitRound_fields:
  "current_round (snd (InitRound uid s)) = current_round s + 1"
  "total_rounds (snd (InitRound uid s)) = total_rounds s"
  by (simp_all add: InitRound_def Let_def)

lemma GetOrAddPlayer_None:
  "players s name = None \<Longrightarrow>
   GetOrAddPlayer name s = (new_Player, s\<lparr>players := (players s)(name \<mapsto> new_Player)\<rparr>)"
  by (simp add: GetOrAddPlayer_def subscript_def)

lemma GetOrAddPlayer_Some:
  "players s name = Some p \<Longrightarrow> GetOrAddPlayer name s = (p, s)"
  by (simp add: GetOrAddPlayer_def subscript_def)

lemma UpdatePlayerScore_None:
  "players s name = None \<Longrightarrow> UpdatePlayerScore name delta s = Inl BackOfEmptyVector"
  by (simp add: UpdatePlayerScore_def subscript_def new_Player_def back_add_Nil)

lemma UpdatePlayerScore_empty:
  "players s name = Some p \<Longrightarrow> scores p = [] \<Longrightarrow>
   UpdatePlayerScore name delta s = Inl BackOfEmptyVector"
  by (simp add: UpdatePlayerScore_def subscript_def back_add_Nil)

lemma Player_updates:
  "p\<lparr>scores := a, current_round_scores := b\<rparr> = \<lparr>scores = a, current_round_scores = b\<rparr>"
  by (cases p) simp

lemma UpdatePlayerScore_Some:
  "players s name = Some p \<Longrightarrow> scores p \<noteq> [] \<Longrightarrow>
   UpdatePlayerScore name delta s = Inr (s\<lparr>players := (players s)(name \<mapsto> \<lparr>scores = butlast (scores p) @ [last (scores p) + delta],
        current_round_scores = current_round_scores p @ [delta]\<rparr>)\<rparr>)"
  by (simp add: UpdatePlayerScore_def subscript_def back_add_Inr Player_updates)

lemma UpdatePlayerScore_InrD:
  assumes "UpdatePlayerScore name delta s = Inr s'"
  obtains p where "players s name = Some p" "scores p \<noteq> []"
    "s' = s\<lparr>players := (players s)(name \<mapsto> \<lparr>scores = butlast (scores p) @ [last (scores p) + delta],
        current_round_scores = current_round_scores p @ [delta]\<rparr>)\<rparr>"
proof (cases "players s name")
  case None
  with assms show ?thesis by (simp add: UpdatePlayerScore_None)
next
  case (Some p)
  show ?thesis
  proof (cases "scores p = []")
    case True
    with Some assms show ?thesis by (simp add: UpdatePlayerScore_empty)
  next
    case False
    with Some assms that show ?thesis by (simp add: UpdatePlayerScore_Some)
  qed
qed


lemma GetOrAddPlayer_players:
  "players (snd (GetOrAddPlayer n s)) =
     (case players s n of None \<Rightarrow> (players s)(n \<mapsto> new_Player) | Some p \<Rightarrow> players s)"
  by (simp add: GetOrAddPlayer_def subscript_def split: option.split)

lemma GetOrAddPlayer_fields:
  "total_rounds (snd (GetOrAddPlayer n s)) = total_rounds s"
  "current_round (snd (GetOrAddPlayer n s)) = current_round s"
  "rng (snd (GetOrAddPlayer n s)) = rng s"
  by (simp_all add: GetOrAddPlayer_def subscript_def split: option.split)

text \<open>
  Claim C2. A call to \<open>InitRound\<close> increments \<open>current_round_\<close> by exactly one (in
  \<open>std::size_t\<close> arithmetic, so modulo \<open>2 ^ 64\<close>), and for every player known at the time
  of the call it appends one entry 0 to \<open>scores\<close> and empties
  \<open>current_round_scores_\<close>; the call neither adds nor removes a player.
\<close>

theorem InitRound_round_and_players:
  "current_round (snd (InitRound uid s)) = current_round s + 1 \<and>
   unat (current_round (snd (InitRound uid s))) = (unat (current_round s) + 1) mod 2 ^ 64 \<and>
   (players s name = Some p \<longrightarrow>
      players (snd (InitRound uid s)) name =
        Some \<lparr>scores = scores p @ [0], current_round_scores = []\<rparr>) \<and>
   dom (players (snd (InitRound uid s))) = dom (players s)"
proof (intro conjI impI)
  show "current_round (snd (InitRound uid s)) = current_round s + 1"
    by (rule InitRound_fields)
  then show "unat (current_round (snd (InitRound uid s))) = (unat (current_round s) + 1) mod 2 ^ 64"
    by (simp add: unat_word_ariths)
  show "players (snd (InitRound uid s)) name =
      Some \<lparr>scores = scores p @ [0], current_round_scores = []\<rparr>"
    if "players s name = Some p"
    using that by (simp add: InitRound_players start_round_def Player_updates)
  show "dom (players (snd (InitRound uid s))) = dom (players s)"
    by (auto simp: InitRound_players dom_def)
qed

theorem InitRound_round_and_players_witness:
  "players (snd (GetOrAddPlayer ''alice'' (GameState_ctor lcg_seed))) ''alice'' =
     Some \<lparr>scores = [], current_round_scores = []\<rparr> \<and>
   players (snd (InitRound lcg_uid (snd (GetOrAddPlayer ''alice'' (GameState_ctor lcg_seed)))))
     ''alice'' = Some \<lparr>scores = [0], current_round_scores = []\<rparr> \<and>
   current_round (snd (InitRound lcg_uid (snd (GetOrAddPlayer ''alice'' (GameState_ctor lcg_seed)))))
     = 1"
proof -
  let ?s = "snd (GetOrAddPlayer ''alice'' (GameState_ctor lcg_seed))"
  have known: "players ?s ''alice'' = Some \<lparr>scores = [], current_round_scores = []\<rparr>"
    by (simp add: GetOrAddPlayer_def subscript_def GameState_ctor_def new_Player_def)
  have round: "current_round ?s = 0"
    by (simp add: GetOrAddPlayer_def subscript_def GameState_ctor_def)
  from InitRound_round_and_players [of lcg_uid ?s "''alice''" "\<lparr>scores = [], current_round_scores = []\<rparr>"]
    known round
  show ?thesis by simp
qed

lemma run_without_rounds:
  "\<forall>n p. players s n = Some p \<longrightarrow> scores p = [] \<Longrightarrow> CallInitRound \<notin> set cs \<Longrightarrow>
   run uid cs s = Inr (grids, s') \<Longrightarrow> \<forall>n p. players s' n = Some p \<longrightarrow> scores p = []"
proof (induction cs arbitrary: s)
  case Nil
  then show ?case by simp
next
  case (Cons c cs)
  show ?case
  proof (cases c)
    case CallInitRound
    with Cons.prems show ?thesis by simp
  next
    case (CallGetOrAddPlayer name)
    have "\<forall>n p. players (snd (GetOrAddPlayer name s)) n = Some p \<longrightarrow> scores p = []"
      using Cons.prems(1)
      by (auto simp: GetOrAddPlayer_players new_Player_def split: option.splits if_splits)
    with Cons.IH Cons.prems CallGetOrAddPlayer show ?thesis by simp
  next
    case (CallUpdatePlayerScore name delta)
    with Cons.prems obtain s1 where "UpdatePlayerScore name delta s = Inr s1"
      by (auto split: sum.splits)
    then obtain p where "players s name = Some p" "scores p \<noteq> []"
      by (rule UpdatePlayerScore_InrD)
    with Cons.prems(1) show ?thesis by simp
  qed
qed

text \<open>
  Claim C3. \<open>UpdatePlayerScore\<close> is defined exactly when the named player is known and
  has a non-empty \<open>scores\<close>; otherwise the call reaches \<open>back()\<close> on an empty vector. That
  is the case in the freshly constructed state, and after every sequence of calls without
  an \<open>InitRound\<close>: before any round has started.
\<close>

theorem UpdatePlayerScore_precondition:
  "((\<exists>s'. UpdatePlayerScore name delta s = Inr s') \<longleftrightarrow>
      (\<exists>p. players s name = Some p \<and> scores p \<noteq> [])) \<and>
   (UpdatePlayerScore name delta s = Inl BackOfEmptyVector \<longleftrightarrow>
      (\<forall>p. players s name = Some p \<longrightarrow> scores p = [])) \<and>
   UpdatePlayerScore name delta (GameState_ctor seed) = Inl BackOfEmptyVector \<and>
   (CallInitRound \<notin> set cs \<longrightarrow> run uid cs (GameState_ctor seed) = Inr (grids, s0) \<longrightarrow>
      UpdatePlayerScore name delta s0 = Inl BackOfEmptyVector)"
proof (intro conjI impI)
  show "(\<exists>s'. UpdatePlayerScore name delta s = Inr s') \<longleftrightarrow>
      (\<exists>p. players s name = Some p \<and> scores p \<noteq> [])"
    by (metis UpdatePlayerScore_InrD UpdatePlayerScore_Some)
  show "UpdatePlayerScore name delta s = Inl BackOfEmptyVector \<longleftrightarrow>
      (\<forall>p. players s name = Some p \<longrightarrow> scores p = [])"
  proof (cases "players s name")
    case None
    then show ?thesis by (simp add: UpdatePlayerScore_None)
  next
    case (Some p)
    then show ?thesis
      by (cases "scores p = []") (simp_all add: UpdatePlayerScore_empty UpdatePlayerScore_Some)
  qed
  show "UpdatePlayerScore name delta (GameState_ctor seed) = Inl BackOfEmptyVector"
    by (simp add: UpdatePlayerScore_None GameState_ctor_def)
  show "UpdatePlayerScore name delta s0 = Inl BackOfEmptyVector"
    if no_round: "CallInitRound \<notin> set cs" and r: "run uid cs (GameState_ctor seed) = Inr (grids, s0)"
  proof -
    have "\<forall>n p. players (GameState_ctor seed) n = Some p \<longrightarrow> scores p = []"
      by (simp add: GameState_ctor_def)
    from run_without_rounds [OF this no_round r]
    have empty: "\<forall>n p. players s0 n = Some p \<longrightarrow> scores p = []" .
    show ?thesis
    proof (cases "players s0 name")
      case None
      then show ?thesis by (rule UpdatePlayerScore_None)
    next
      case (Some p)
      with empty show ?thesis by (simp add: UpdatePlayerScore_empty)
    qed
  qed
qed

theorem UpdatePlayerScore_precondition_witness:
  "CallInitRound \<notin> set [CallGetOrAddPlayer ''bob''] \<and>
   run lcg_uid [CallGetOrAddPlayer ''bob''] (GameState_ctor lcg_seed) =
     Inr ([], snd (GetOrAddPlayer ''bob'' (GameState_ctor lcg_seed))) \<and>
   UpdatePlayerScore ''bob'' 5 (snd (GetOrAddPlayer ''bob'' (GameState_ctor lcg_seed))) =
     Inl BackOfEmptyVector"
  using UpdatePlayerScore_precondition [where name = "''bob''" and delta = 5
      and s = "GameState_ctor lcg_seed" and cs = "[CallGetOrAddPlayer ''bob'']"
      and uid = lcg_uid and seed = lcg_seed and grids = "[]"
      and ?s0.0 = "snd (GetOrAddPlayer ''bob'' (GameState_ctor lcg_seed))"]
  by simp

text \<open>
  Claim C4 fails on the code. In the first round of a new manager the player \<open>bob\<close> is
  not in the map; \<open>UpdatePlayerScore("bob", 5)\<close> creates him with two empty vectors and
  then calls \<open>back()\<close> on the empty \<open>scores\<close>.
\<close>

theorem UpdatePlayerScore_new_player:
  "players (snd (InitRound uid (GameState_ctor seed))) ''bob'' = None \<and>
   UpdatePlayerScore ''bob'' 5 (snd (InitRound uid (GameState_ctor seed))) =
     Inl BackOfEmptyVector"
  by (simp add: UpdatePlayerScore_None InitRound_players GameState_ctor_def)

text \<open>
  Claim C8. \<open>GetOrAddPlayer(name)\<close>: when no player has that name, it inserts one with
  empty \<open>scores\<close> and empty \<open>current_round_scores_\<close>, returns it, and changes nothing else;
  when one has, it returns that player and the state is unchanged.
\<close>

theorem GetOrAddPlayer_effect:
  "(players s name = None \<longrightarrow>
      GetOrAddPlayer name s =
        (\<lparr>scores = [], current_round_scores = []\<rparr>,
         s\<lparr>players := (players s)(name \<mapsto> \<lparr>scores = [], current_round_scores = []\<rparr>)\<rparr>)) \<and>
   (players s name = Some p \<longrightarrow> GetOrAddPlayer name s = (p, s))"
  by (simp add: GetOrAddPlayer_None GetOrAddPlayer_Some new_Player_def)

theorem GetOrAddPlayer_effect_witness:
  "players (GameState_ctor lcg_seed) ''alice'' = None \<and>
   fst (GetOrAddPlayer ''alice'' (GameState_ctor lcg_seed)) =
     \<lparr>scores = [], current_round_scores = []\<rparr> \<and>
   players (snd (GetOrAddPlayer ''alice'' (GameState_ctor lcg_seed))) ''alice'' =
     Some \<lparr>scores = [], current_round_scores = []\<rparr> \<and>
   GetOrAddPlayer ''alice'' (snd (GetOrAddPlayer ''alice'' (GameState_ctor lcg_seed))) =
     (\<lparr>scores = [], current_round_scores = []\<rparr>,
      snd (GetOrAddPlayer ''alice'' (GameState_ctor lcg_seed)))"
proof -
  let ?s0 = "GameState_ctor lcg_seed"
  let ?p = "\<lparr>scores = [], current_round_scores = []\<rparr>"
  have absent: "players ?s0 ''alice'' = None"
    by (simp add: GameState_ctor_def)
  from GetOrAddPlayer_effect [of ?s0 "''alice''"] absent
  have first: "GetOrAddPlayer ''alice'' ?s0 = (?p, ?s0\<lparr>players := (players ?s0)(''alice'' \<mapsto> ?p)\<rparr>)"
    by simp
  then have present: "players (snd (GetOrAddPlayer ''alice'' ?s0)) ''alice'' = Some ?p"
    by simp
  from GetOrAddPlayer_effect [of "snd (GetOrAddPlayer ''alice'' ?s0)" "''alice''" ?p] present
  have "GetOrAddPlayer ''alice'' (snd (GetOrAddPlayer ''alice'' ?s0)) =
      (?p, snd (GetOrAddPlayer ''alice'' ?s0))"
    by simp
  with absent first present show ?thesis by simp
qed


section \<open>Recording scores\<close>

lemma UpdatePlayerScore_twice:
  assumes "players s name = Some p" "scores p \<noteq> []"
  shows "\<exists>s1 s2. UpdatePlayerScore name d1 s = Inr s1 \<and> UpdatePlayerScore name d2 s1 = Inr s2 \<and>
     players s2 name =
       Some \<lparr>scores = butlast (scores p) @ [last (scores p) + d1 + d2],
             current_round_scores = current_round_scores p @ [d1, d2]\<rparr>"
proof -
  let ?p1 = "\<lparr>scores = butlast (scores p) @ [last (scores p) + d1],
               current_round_scores = current_round_scores p @ [d1]\<rparr>"
  let ?s1 = "s\<lparr>players := (players s)(name \<mapsto> ?p1)\<rparr>"
  have first: "UpdatePlayerScore name d1 s = Inr ?s1"
    using assms by (rule UpdatePlayerScore_Some)
  have "players ?s1 name = Some ?p1" "scores ?p1 \<noteq> []"
    by simp_all
  from UpdatePlayerScore_Some [OF this, of d2]
  have "\<exists>s2. UpdatePlayerScore name d2 ?s1 = Inr s2 \<and>
     players s2 name =
       Some \<lparr>scores = butlast (scores p) @ [last (scores p) + d1 + d2],
             current_round_scores = current_round_scores p @ [d1, d2]\<rparr>"
    by simp
  with first show ?thesis by blast
qed

lemma round_started:
  "players (snd (InitRound uid (snd (GetOrAddPlayer name (GameState_ctor seed))))) name =
     Some \<lparr>scores = [0], current_round_scores = []\<rparr>"
  by (simp add: InitRound_players GetOrAddPlayer_players GameState_ctor_def new_Player_def
      start_round_def)

text \<open>
  Claim C5. For a known player whose \<open>scores\<close> is not empty,
  \<open>UpdatePlayerScore(name, delta)\<close> adds \<open>delta\<close> to the last entry of \<open>scores\<close> (in
  \<open>std::size_t\<close> arithmetic) and appends \<open>delta\<close> to \<open>current_round_scores_\<close>, and changes
  nothing else. Two successive calls with 5 and then 3 append \<open>[5, 3]\<close> to the round's
  deltas and raise the last entry by 8. Within one round, that is when the two calls follow
  the \<open>InitRound\<close> that started it, the deltas are exactly \<open>[5, 3]\<close> and the last entry is
  8 more than the 0 it held before the two calls.
\<close>

theorem UpdatePlayerScore_effect:
  assumes "players s name = Some p"
  shows "(scores p \<noteq> [] \<longrightarrow>
            UpdatePlayerScore name delta s =
              Inr (s\<lparr>players := (players s)(name \<mapsto>
                \<lparr>scores = butlast (scores p) @ [last (scores p) + delta],
                 current_round_scores = current_round_scores p @ [delta]\<rparr>)\<rparr>)) \<and>
         (scores p \<noteq> [] \<longrightarrow>
            (\<exists>s1 s2 p2. UpdatePlayerScore name 5 s = Inr s1 \<and>
               UpdatePlayerScore name 3 s1 = Inr s2 \<and> players s2 name = Some p2 \<and>
               current_round_scores p2 = current_round_scores p @ [5, 3] \<and>
               scores p2 = butlast (scores p) @ [last (scores p) + 8])) \<and>
         (\<exists>s1 s2 p2. UpdatePlayerScore name 5 (snd (InitRound uid s)) = Inr s1 \<and>
            UpdatePlayerScore name 3 s1 = Inr s2 \<and> players s2 name = Some p2 \<and>
            current_round_scores p2 = [5, 3] \<and> scores p2 = scores p @ [0 + 8])"
proof (intro conjI impI)
  assume ne: "scores p \<noteq> []"
  show "UpdatePlayerScore name delta s =
      Inr (s\<lparr>players := (players s)(name \<mapsto>
        \<lparr>scores = butlast (scores p) @ [last (scores p) + delta],
         current_round_scores = current_round_scores p @ [delta]\<rparr>)\<rparr>)"
    using assms ne by (rule UpdatePlayerScore_Some)
  from UpdatePlayerScore_twice [OF assms ne, of 5 3]
  show "\<exists>s1 s2 p2. UpdatePlayerScore name 5 s = Inr s1 \<and>
      UpdatePlayerScore name 3 s1 = Inr s2 \<and> players s2 name = Some p2 \<and>
      current_round_scores p2 = current_round_scores p @ [5, 3] \<and>
      scores p2 = butlast (scores p) @ [last (scores p) + 8]"
    by auto
next
  let ?p0 = "\<lparr>scores = scores p @ [0], current_round_scores = []\<rparr>"
  have "players (snd (InitRound uid s)) name = Some ?p0" "scores ?p0 \<noteq> []"
    using assms by (simp_all add: InitRound_players start_round_def Player_updates)
  from UpdatePlayerScore_twice [OF this, of 5 3]
  show "\<exists>s1 s2 p2. UpdatePlayerScore name 5 (snd (InitRound uid s)) = Inr s1 \<and>
      UpdatePlayerScore name 3 s1 = Inr s2 \<and> players s2 name = Some p2 \<and>
      current_round_scores p2 = [5, 3] \<and> scores p2 = scores p @ [0 + 8]"
    by auto
qed

theorem UpdatePlayerScore_effect_witness:
  "players (snd (InitRound lcg_uid (snd (GetOrAddPlayer ''bob'' (GameState_ctor lcg_seed))))) ''bob''
     = Some \<lparr>scores = [0], current_round_scores = []\<rparr> \<and>
   (\<exists>s1 s2 p2.
      UpdatePlayerScore ''bob'' 5
        (snd (InitRound lcg_uid (snd (GetOrAddPlayer ''bob'' (GameState_ctor lcg_seed))))) = Inr s1 \<and>
      UpdatePlayerScore ''bob'' 3 s1 = Inr s2 \<and> players s2 ''bob'' = Some p2 \<and>
      current_round_scores p2 = [5, 3] \<and> scores p2 = [8])"
proof -
  let ?s = "snd (InitRound lcg_uid (snd (GetOrAddPlayer ''bob'' (GameState_ctor lcg_seed))))"
  let ?p = "\<lparr>scores = [0], current_round_scores = []\<rparr>"
  have known: "players ?s ''bob'' = Some ?p"
    by (rule round_started)
  from UpdatePlayerScore_effect [OF known, of 0 lcg_uid] known
  show ?thesis by simp
qed

section \<open>Rounds since a player joined\<close>

lemma length_scores_start_round: "length (scores (start_round p)) = Suc (length (scores p))"
  by (simp add: start_round_def)

lemma run_scores_length:
  "run uid cs s = Inr (grids, s') \<Longrightarrow>
   map_option (\<lambda>p. length (scores p)) (players s' name) =
     (case players s name of
        Some p \<Rightarrow> Some (length (scores p) + count_list cs CallInitRound)
      | None \<Rightarrow> rounds_since name cs)"
proof (induction cs arbitrary: s grids)
  case Nil
  then show ?case by (auto split: option.splits)
next
  case (Cons c cs)
  show ?case
  proof (cases c)
    case CallInitRound
    with Cons.prems obtain gs where "run uid cs (snd (InitRound uid s)) = Inr (gs, s')"
      by (auto split: sum.splits)
    from Cons.IH [OF this] CallInitRound show ?thesis
      by (auto simp: InitRound_players length_scores_start_round split: option.splits)
  next
    case (CallGetOrAddPlayer n)
    with Cons.prems have "run uid cs (snd (GetOrAddPlayer n s)) = Inr (grids, s')"
      by simp
    from Cons.IH [OF this] CallGetOrAddPlayer show ?thesis
      by (auto simp: GetOrAddPlayer_players new_Player_def split: option.splits if_splits)
  next
    case (CallUpdatePlayerScore n delta)
    with Cons.prems obtain s1 where u: "UpdatePlayerScore n delta s = Inr s1"
      and r: "run uid cs s1 = Inr (grids, s')"
      by (auto split: sum.splits)
    from u obtain p0 where p0: "players s n = Some p0" "scores p0 \<noteq> []"
      "s1 = s\<lparr>players := (players s)(n \<mapsto>
         \<lparr>scores = butlast (scores p0) @ [last (scores p0) + delta],
          current_round_scores = current_round_scores p0 @ [delta]\<rparr>)\<rparr>"
      by (rule UpdatePlayerScore_InrD)
    from Cons.IH [OF r] CallUpdatePlayerScore p0 show ?thesis
      by (auto split: option.splits if_splits)
  qed
qed

text \<open>
  Claim C6. After every call sequence on a new manager, the length of a player's
  \<open>scores\<close> is the number of \<open>InitRound\<close> calls made after the call that first named the
  player (and a name no call mentioned is not in the map). It is not the round counter:
  after \<open>InitRound\<close>, \<open>GetOrAddPlayer("alice")\<close>, \<open>InitRound\<close>, the length of alice's
  \<open>scores\<close> is 1 while \<open>current_round_\<close> is 2.
\<close>

theorem scores_length_rounds_since:
  "(run uid cs (GameState_ctor seed) = Inr (grids, s) \<longrightarrow>
      (players s name = None \<longrightarrow> rounds_since name cs = None) \<and>
      (players s name = Some p \<longrightarrow> rounds_since name cs = Some (length (scores p)))) \<and>
   (\<exists>alice. players (snd (InitRound uid (snd (GetOrAddPlayer ''alice''
        (snd (InitRound uid (GameState_ctor seed))))))) ''alice'' = Some alice \<and>
      length (scores alice) = 1) \<and>
   current_round (snd (InitRound uid (snd (GetOrAddPlayer ''alice''
        (snd (InitRound uid (GameState_ctor seed))))))) = 2"
proof (intro conjI impI)
  assume r: "run uid cs (GameState_ctor seed) = Inr (grids, s)"
  have "players (GameState_ctor seed) name = None"
    by (simp add: GameState_ctor_def)
  with run_scores_length [OF r, of name]
  have eq: "map_option (\<lambda>p. length (scores p)) (players s name) = rounds_since name cs"
    by simp
  show "rounds_since name cs = None" if "players s name = None"
    using eq that by simp
  show "rounds_since name cs = Some (length (scores p))" if "players s name = Some p"
    using eq that by simp
next
  show "\<exists>alice. players (snd (InitRound uid (snd (GetOrAddPlayer ''alice''
        (snd (InitRound uid (GameState_ctor seed))))))) ''alice'' = Some alice \<and>
      length (scores alice) = 1"
    by (simp add: InitRound_players GetOrAddPlayer_players GameState_ctor_def new_Player_def
        start_round_def)
  show "current_round (snd (InitRound uid (snd (GetOrAddPlayer ''alice''
        (snd (InitRound uid (GameState_ctor seed))))))) = 2"
    by (simp add: InitRound_fields GetOrAddPlayer_fields GameState_ctor_def)
qed

theorem scores_length_rounds_since_witness:
  "run lcg_uid [CallInitRound, CallGetOrAddPlayer ''alice'', CallInitRound] (GameState_ctor lcg_seed) =
     Inr ([fst (InitRound lcg_uid (GameState_ctor lcg_seed)),
           fst (InitRound lcg_uid (snd (GetOrAddPlayer ''alice''
             (snd (InitRound lcg_uid (GameState_ctor lcg_seed))))))],
          snd (InitRound lcg_uid (snd (GetOrAddPlayer ''alice''
             (snd (InitRound lcg_uid (GameState_ctor lcg_seed))))))) \<and>
   players (snd (InitRound lcg_uid (snd (GetOrAddPlayer ''alice''
        (snd (InitRound lcg_uid (GameState_ctor lcg_seed))))))) ''alice''
     = Some \<lparr>scores = [0], current_round_scores = []\<rparr> \<and>
   rounds_since ''alice'' [CallInitRound, CallGetOrAddPlayer ''alice'', CallInitRound] = Some 1 \<and>
   rounds_since ''bob'' [CallInitRound, CallGetOrAddPlayer ''alice'', CallInitRound] = None"
proof -
  let ?cs = "[CallInitRound, CallGetOrAddPlayer ''alice'', CallInitRound]"
  let ?s = "snd (InitRound lcg_uid (snd (GetOrAddPlayer ''alice''
        (snd (InitRound lcg_uid (GameState_ctor lcg_seed))))))"
  let ?grids = "[fst (InitRound lcg_uid (GameState_ctor lcg_seed)),
           fst (InitRound lcg_uid (snd (GetOrAddPlayer ''alice''
             (snd (InitRound lcg_uid (GameState_ctor lcg_seed))))))]"
  have r: "run lcg_uid ?cs (GameState_ctor lcg_seed) = Inr (?grids, ?s)"
    by simp
  have alice: "players ?s ''alice'' = Some \<lparr>scores = [0], current_round_scores = []\<rparr>"
    by (simp add: InitRound_players GetOrAddPlayer_players GameState_ctor_def new_Player_def
        start_round_def)
  have bob: "players ?s ''bob'' = None"
    by (simp add: InitRound_players GetOrAddPlayer_players GameState_ctor_def)
  from scores_length_rounds_since [of lcg_uid ?cs lcg_seed ?grids ?s "''alice''"
      "\<lparr>scores = [0], current_round_scores = []\<rparr>"]
    scores_length_rounds_since [of lcg_uid ?cs lcg_seed ?grids ?s "''bob''"]
    r alice bob
  show ?thesis by simp
qed

section \<open>Determinism of the grids\<close>

lemma InitRound_grid_rng:
  "fst (InitRound uid s) = fst (fill_grid (uid 1 5) 0 (empty_grid, rng s))"
  "rng (snd (InitRound uid s)) = snd (fill_grid (uid 1 5) 0 (empty_grid, rng s))"
  by (simp_all add: InitRound_def Let_def)

lemma UpdatePlayerScore_fields:
  assumes "UpdatePlayerScore name delta s = Inr s'"
  shows "total_rounds s' = total_rounds s" "current_round s' = current_round s" "rng s' = rng s"
    "other \<noteq> name \<Longrightarrow> players s' other = players s other"
  using assms by (auto elim!: UpdatePlayerScore_InrD)

lemma run_grids_from:
  "run uid cs s = Inr (grids, s') \<Longrightarrow>
   (grids, rng s') = grids_from uid (count_list cs CallInitRound) (rng s)"
proof (induction cs arbitrary: s grids)
  case Nil
  then show ?case by simp
next
  case (Cons c cs)
  show ?case
  proof (cases c)
    case CallInitRound
    with Cons.prems obtain gs where r: "run uid cs (snd (InitRound uid s)) = Inr (gs, s')"
      and g: "grids = fst (InitRound uid s) # gs"
      by (auto split: sum.splits)
    from Cons.IH [OF r, symmetric] g CallInitRound show ?thesis
      by (simp add: InitRound_grid_rng Let_def)
  next
    case (CallGetOrAddPlayer n)
    with Cons.prems have "run uid cs (snd (GetOrAddPlayer n s)) = Inr (grids, s')"
      by simp
    from Cons.IH [OF this] CallGetOrAddPlayer show ?thesis
      by (simp add: GetOrAddPlayer_fields)
  next
    case (CallUpdatePlayerScore n delta)
    with Cons.prems obtain s1 where u: "UpdatePlayerScore n delta s = Inr s1"
      and r: "run uid cs s1 = Inr (grids, s')"
      by (auto split: sum.splits)
    from Cons.IH [OF r] CallUpdatePlayerScore UpdatePlayerScore_fields(3) [OF u] show ?thesis
      by simp
  qed
qed

lemma length_grids_from: "length (fst (grids_from uid n g)) = n"
  by (induction n arbitrary: g) (simp_all add: Let_def)

text \<open>
  Claim C7. The constructor takes no input and seeds the engine with the constant 0, so
  two managers constructed identically hold the same engine state. Two managers whose
  engines are in the same state, driven with call sequences that contain the same number
  of \<open>InitRound\<close> calls (in particular with the same call sequence), return the same grids
  round for round and end with the same engine state: the grids depend on the engine
  alone, not on the players or the counters, and there is one grid per \<open>InitRound\<close> call.
\<close>

theorem grids_deterministic:
  "rng (GameState_ctor seed) = seed 0 \<and>
   (rng s1 = rng s2 \<longrightarrow> count_list cs1 CallInitRound = count_list cs2 CallInitRound \<longrightarrow>
    run uid cs1 s1 = Inr (grids1, s1') \<longrightarrow> run uid cs2 s2 = Inr (grids2, s2') \<longrightarrow>
      grids1 = grids2 \<and> rng s1' = rng s2' \<and> length grids1 = count_list cs1 CallInitRound)"
proof (intro conjI impI)
  show "rng (GameState_ctor seed) = seed 0"
    by (simp add: GameState_ctor_def)
next
  assume same: "rng s1 = rng s2" "count_list cs1 CallInitRound = count_list cs2 CallInitRound"
    and r1: "run uid cs1 s1 = Inr (grids1, s1')" and r2: "run uid cs2 s2 = Inr (grids2, s2')"
  from run_grids_from [OF r1] run_grids_from [OF r2] same
  have "(grids1, rng s1') = (grids2, rng s2')" by simp
  then show "grids1 = grids2" "rng s1' = rng s2'" by simp_all
  from run_grids_from [OF r1, symmetric] length_grids_from [of uid "count_list cs1 CallInitRound" "rng s1"]
  show "length grids1 = count_list cs1 CallInitRound" by simp
qed

theorem grids_deterministic_witness:
  "run lcg_uid [CallInitRound] (GameState_ctor lcg_seed) =
     Inr ([fst (InitRound lcg_uid (GameState_ctor lcg_seed))],
          snd (InitRound lcg_uid (GameState_ctor lcg_seed))) \<and>
   run lcg_uid [CallGetOrAddPlayer ''alice'', CallInitRound] (GameState_ctor lcg_seed) =
     Inr ([fst (InitRound lcg_uid (snd (GetOrAddPlayer ''alice'' (GameState_ctor lcg_seed))))],
          snd (InitRound lcg_uid (snd (GetOrAddPlayer ''alice'' (GameState_ctor lcg_seed))))) \<and>
   fst (InitRound lcg_uid (GameState_ctor lcg_seed)) =
     fst (InitRound lcg_uid (snd (GetOrAddPlayer ''alice'' (GameState_ctor lcg_seed))))"
proof -
  let ?s0 = "GameState_ctor lcg_seed"
  let ?t0 = "snd (GetOrAddPlayer ''alice'' ?s0)"
  have r1: "run lcg_uid [CallInitRound] ?s0 =
      Inr ([fst (InitRound lcg_uid ?s0)], snd (InitRound lcg_uid ?s0))"
    by simp
  have r2: "run lcg_uid [CallGetOrAddPlayer ''alice'', CallInitRound] ?s0 =
      Inr ([fst (InitRound lcg_uid ?t0)], snd (InitRound lcg_uid ?t0))"
    by simp
  from grids_deterministic [where ?s1.0 = ?s0 and ?s2.0 = ?s0 and uid = lcg_uid and seed = lcg_seed
      and ?cs1.0 = "[CallInitRound]" and ?cs2.0 = "[CallGetOrAddPlayer ''alice'', CallInitRound]"
      and ?grids1.0 = "[fst (InitRound lcg_uid ?s0)]" and ?s1'.0 = "snd (InitRound lcg_uid ?s0)"
      and ?grids2.0 = "[fst (InitRound lcg_uid ?t0)]" and ?s2'.0 = "snd (InitRound lcg_uid ?t0)"]
    r1 r2
  show ?thesis by simp
qed

section \<open>Invariants of the scores and the counters\<close>

lemma unat_sum_list:
  "unat (sum_list ws) = sum_list (map unat ws) mod 2 ^ 64" for ws :: "size_t list"
proof (induction ws)
  case Nil
  show ?case by simp
next
  case (Cons w ws)
  have "unat (w + sum_list ws) = (unat w + unat (sum_list ws)) mod 2 ^ 64"
    by (simp add: unat_word_ariths)
  also have "\<dots> = (unat w + sum_list (map unat ws)) mod 2 ^ 64"
    by (simp add: Cons.IH mod_add_right_eq)
  finally show ?case by simp
qed

lemma run_round_sum:
  "\<forall>n p. players s n = Some p \<longrightarrow> scores p \<noteq> [] \<longrightarrow>
      last (scores p) = sum_list (current_round_scores p) \<Longrightarrow>
   run uid cs s = Inr (grids, s') \<Longrightarrow>
   \<forall>n p. players s' n = Some p \<longrightarrow> scores p \<noteq> [] \<longrightarrow>
      last (scores p) = sum_list (current_round_scores p)"
proof (induction cs arbitrary: s grids)
  case Nil
  then show ?case by simp
next
  case (Cons c cs)
  show ?case
  proof (cases c)
    case CallInitRound
    with Cons.prems obtain gs where r: "run uid cs (snd (InitRound uid s)) = Inr (gs, s')"
      by (auto split: sum.splits)
    have "\<forall>n p. players (snd (InitRound uid s)) n = Some p \<longrightarrow> scores p \<noteq> [] \<longrightarrow>
        last (scores p) = sum_list (current_round_scores p)"
      by (auto simp: InitRound_players start_round_def)
    from Cons.IH [OF this r] show ?thesis .
  next
    case (CallGetOrAddPlayer n)
    with Cons.prems have r: "run uid cs (snd (GetOrAddPlayer n s)) = Inr (grids, s')"
      by simp
    have "\<forall>m p. players (snd (GetOrAddPlayer n s)) m = Some p \<longrightarrow> scores p \<noteq> [] \<longrightarrow>
        last (scores p) = sum_list (current_round_scores p)"
      using Cons.prems(1)
      by (auto simp: GetOrAddPlayer_players new_Player_def split: option.splits if_splits)
    from Cons.IH [OF this r] show ?thesis .
  next
    case (CallUpdatePlayerScore n delta)
    with Cons.prems obtain s1 where u: "UpdatePlayerScore n delta s = Inr s1"
      and r: "run uid cs s1 = Inr (grids, s')"
      by (auto split: sum.splits)
    from u obtain p0 where p0: "players s n = Some p0" "scores p0 \<noteq> []"
      "s1 = s\<lparr>players := (players s)(n \<mapsto>
         \<lparr>scores = butlast (scores p0) @ [last (scores p0) + delta],
          current_round_scores = current_round_scores p0 @ [delta]\<rparr>)\<rparr>"
      by (rule UpdatePlayerScore_InrD)
    have "\<forall>m p. players s1 m = Some p \<longrightarrow> scores p \<noteq> [] \<longrightarrow>
        last (scores p) = sum_list (current_round_scores p)"
      using Cons.prems(1) p0 by (auto split: if_splits)
    from Cons.IH [OF this r] show ?thesis .
  qed
qed

lemma run_total_rounds:
  "run uid cs s = Inr (grids, s') \<Longrightarrow> total_rounds s' = total_rounds s"
proof (induction cs arbitrary: s grids)
  case Nil
  then show ?case by simp
next
  case (Cons c cs)
  show ?case
  proof (cases c)
    case CallInitRound
    with Cons.prems obtain gs where "run uid cs (snd (InitRound uid s)) = Inr (gs, s')"
      by (auto split: sum.splits)
    from Cons.IH [OF this] show ?thesis by (simp add: InitRound_fields)
  next
    case (CallGetOrAddPlayer n)
    with Cons.prems have "run uid cs (snd (GetOrAddPlayer n s)) = Inr (grids, s')"
      by simp
    from Cons.IH [OF this] show ?thesis by (simp add: GetOrAddPlayer_fields)
  next
    case (CallUpdatePlayerScore n delta)
    with Cons.prems obtain s1 where u: "UpdatePlayerScore n delta s = Inr s1"
      and r: "run uid cs s1 = Inr (grids, s')"
      by (auto split: sum.splits)
    from Cons.IH [OF r] UpdatePlayerScore_fields(1) [OF u] show ?thesis by simp
  qed
qed

lemma scenario_run:
  "\<exists>grids s. run uid [CallGetOrAddPlayer ''p1'', CallInitRound,
        CallUpdatePlayerScore ''p1'' 10, CallUpdatePlayerScore ''p1'' 5] (GameState_ctor seed) =
      Inr (grids, s) \<and>
     players s ''p1'' = Some \<lparr>scores = [15], current_round_scores = [10, 5]\<rparr>"
proof -
  let ?s2 = "snd (InitRound uid (snd (GetOrAddPlayer ''p1'' (GameState_ctor seed))))"
  have "players ?s2 ''p1'' = Some \<lparr>scores = [0], current_round_scores = []\<rparr>"
    by (rule round_started)
  from UpdatePlayerScore_twice [OF this, of 10 5]
  obtain s3 s4 where "UpdatePlayerScore ''p1'' 10 ?s2 = Inr s3" "UpdatePlayerScore ''p1'' 5 s3 = Inr s4"
    "players s4 ''p1'' = Some \<lparr>scores = [15], current_round_scores = [10, 5]\<rparr>"
    by auto
  then show ?thesis by simp
qed

text \<open>
  Claim C9. In every state a new manager reaches by a call sequence (every call of which
  is defined), a player whose \<open>scores\<close> is not empty has as its last entry the sum of the
  entries of \<open>current_round_scores_\<close>. The sum is the one the code computes, in
  \<open>std::size_t\<close> arithmetic: read as natural numbers it is the sum modulo \<open>2 ^ 64\<close>.
\<close>

theorem last_score_is_round_sum:
  assumes "run uid cs (GameState_ctor seed) = Inr (grids, s)"
    and "players s name = Some p" and "scores p \<noteq> []"
  shows "last (scores p) = sum_list (current_round_scores p) \<and>
         unat (last (scores p)) = sum_list (map unat (current_round_scores p)) mod 2 ^ 64"
proof -
  have "\<forall>n p. players (GameState_ctor seed) n = Some p \<longrightarrow> scores p \<noteq> [] \<longrightarrow>
      last (scores p) = sum_list (current_round_scores p)"
    by (simp add: GameState_ctor_def)
  from run_round_sum [OF this assms(1)] assms(2,3)
  have "last (scores p) = sum_list (current_round_scores p)" by blast
  then show ?thesis by (simp add: unat_sum_list)
qed

theorem last_score_is_round_sum_witness:
  "\<exists>grids s. run lcg_uid [CallGetOrAddPlayer ''p1'', CallInitRound,
        CallUpdatePlayerScore ''p1'' 10, CallUpdatePlayerScore ''p1'' 5] (GameState_ctor lcg_seed) =
      Inr (grids, s) \<and>
     players s ''p1'' = Some \<lparr>scores = [15], current_round_scores = [10, 5]\<rparr> \<and>
     last [15 :: size_t] = sum_list [10, 5]"
proof -
  from scenario_run [of lcg_uid lcg_seed] obtain grids s where
    r: "run lcg_uid [CallGetOrAddPlayer ''p1'', CallInitRound,
        CallUpdatePlayerScore ''p1'' 10, CallUpdatePlayerScore ''p1'' 5] (GameState_ctor lcg_seed) =
      Inr (grids, s)"
    and p: "players s ''p1'' = Some \<lparr>scores = [15], current_round_scores = [10, 5]\<rparr>"
    by blast
  have ne: "scores \<lparr>scores = [15], current_round_scores = [10, 5]\<rparr> \<noteq> []"
    by simp
  from last_score_is_round_sum [OF r p ne]
  have "last [15 :: size_t] = sum_list [10, 5]" by simp
  with r p show ?thesis by blast
qed

text \<open>
  Claim C10. No operation writes \<open>total_rounds_\<close>: each of the three leaves it as it
  was, so after every call sequence on a new manager it is still 0. \<open>GetOrAddPlayer\<close> and
  \<open>UpdatePlayerScore\<close> also leave \<open>current_round_\<close>, the engine, and every player other
  than the one named as they were.
\<close>

theorem total_rounds_unchanged:
  "total_rounds (GameState_ctor seed) = 0 \<and>
   total_rounds (snd (InitRound uid s)) = total_rounds s \<and>
   total_rounds (snd (GetOrAddPlayer name s)) = total_rounds s \<and>
   (UpdatePlayerScore name delta s = Inr s' \<longrightarrow> total_rounds s' = total_rounds s) \<and>
   (run uid cs s = Inr (grids, s'') \<longrightarrow> total_rounds s'' = total_rounds s) \<and>
   (run uid cs (GameState_ctor seed) = Inr (grids0, s0) \<longrightarrow> total_rounds s0 = 0) \<and>
   current_round (snd (GetOrAddPlayer name s)) = current_round s \<and>
   rng (snd (GetOrAddPlayer name s)) = rng s \<and>
   (other \<noteq> name \<longrightarrow> players (snd (GetOrAddPlayer name s)) other = players s other) \<and>
   (UpdatePlayerScore name delta s = Inr s' \<longrightarrow>
      current_round s' = current_round s \<and> rng s' = rng s \<and>
      (other \<noteq> name \<longrightarrow> players s' other = players s other))"
proof (intro conjI impI)
  show "total_rounds (GameState_ctor seed) = 0"
    by (simp add: GameState_ctor_def)
  show "total_rounds (snd (InitRound uid s)) = total_rounds s"
    by (rule InitRound_fields)
  show "total_rounds (snd (GetOrAddPlayer name s)) = total_rounds s"
    "current_round (snd (GetOrAddPlayer name s)) = current_round s"
    "rng (snd (GetOrAddPlayer name s)) = rng s"
    by (rule GetOrAddPlayer_fields)+
  show "players (snd (GetOrAddPlayer name s)) other = players s other" if "other \<noteq> name"
    using that by (simp add: GetOrAddPlayer_players split: option.split)
  show "total_rounds s'' = total_rounds s" if "run uid cs s = Inr (grids, s'')"
    using that by (rule run_total_rounds)
  show "total_rounds s0 = 0" if "run uid cs (GameState_ctor seed) = Inr (grids0, s0)"
    using run_total_rounds [OF that] by (simp add: GameState_ctor_def)
next
  assume u: "UpdatePlayerScore name delta s = Inr s'"
  show "total_rounds s' = total_rounds s" "current_round s' = current_round s" "rng s' = rng s"
    using u by (rule UpdatePlayerScore_fields)+
  show "players s' other = players s other" if "other \<noteq> name"
    using u that by (rule UpdatePlayerScore_fields)
qed

theorem total_rounds_unchanged_witness:
  "\<exists>grids s. run lcg_uid [CallGetOrAddPlayer ''p1'', CallInitRound,
        CallUpdatePlayerScore ''p1'' 10, CallUpdatePlayerScore ''p1'' 5] (GameState_ctor lcg_seed) =
      Inr (grids, s) \<and> total_rounds s = 0"
proof -
  from scenario_run [of lcg_uid lcg_seed] obtain grids s where
    r: "run lcg_uid [CallGetOrAddPlayer ''p1'', CallInitRound,
        CallUpdatePlayerScore ''p1'' 10, CallUpdatePlayerScore ''p1'' 5] (GameState_ctor lcg_seed) =
      Inr (grids, s)"
    by blast
  from total_rounds_unchanged [where uid = lcg_uid and seed = lcg_seed and ?s0.0 = s
      and ?grids0.0 = grids
      and cs = "[CallGetOrAddPlayer ''p1'', CallInitRound,
        CallUpdatePlayerScore ''p1'' 10, CallUpdatePlayerScore ''p1'' 5]"] r
  have "total_rounds s = 0" by simp
  with r show ?thesis by blast
qed


end
